theory Spec2Isabelle
  imports Complex_Main "HOL-Library.Sublist" "HOL-Library.AList"
begin

section \<open>Errors\<close>

text \<open>
  Every exception the modelled Python code can raise is a value of \<open>error\<close>; a function
  that may raise returns \<open>error + 'a\<close> with \<open>Inl\<close> for the exception.
  \<open>InputError\<close> is \<open>WDL.Error.InputError\<close> with its message.
\<close>

datatype error =
    AssertionError
  | KeyError
  | IndexError
  | ValueError
  | OverflowError
  | OSError
  | InputError string

section \<open>Runtime values (WDL/Value.py)\<close>

text \<open>
  Modelled from the spec: the module \<open>WDL.Type\<close> is not among the sources; the spec
  speaks of scalar and array runtime values, so the type tags are the four scalar types
  and the array type over an item type. Two tags are equal when they are the same tag
  (over the same item type).
\<close>

datatype ty = TBoolean | TInt | TFloat | TString | TArray ty

text \<open>\<open>isinstance(t, T.Float)\<close>\<close>

fun isinstance_Float :: "ty \<Rightarrow> bool" where
  "isinstance_Float TFloat = True"
| "isinstance_Float _ = False"

text \<open>
  One constructor per subclass of \<open>Value.Base\<close>, holding the raw Python value. The
  constructors of \<open>Boolean\<close>, \<open>Float\<close>, \<open>Int\<close> and \<open>String\<close> fix the
  \<open>type\<close> field; the one of \<open>Array\<close> takes it as an argument. The type variable
  \<open>'f\<close> stands for Python's \<open>float\<close>.
\<close>

datatype 'f wdl_value =
    VBoolean bool
  | VFloat 'f
  | VInt int
  | VString string
  | VArray ty "'f wdl_value list"

fun type_of :: "'f wdl_value \<Rightarrow> ty" where
  "type_of (VBoolean b) = TBoolean"
| "type_of (VFloat x) = TFloat"
| "type_of (VInt n) = TInt"
| "type_of (VString s) = TString"
| "type_of (VArray t vs) = t"

text \<open>
  \<open>Base.coerce\<close>: the assertion, then \<open>return self\<close>. The argument
  \<open>desired_type\<close> is \<open>None\<close> by default.
\<close>

definition Base_coerce :: "'f wdl_value \<Rightarrow> ty option \<Rightarrow> error + 'f wdl_value" where
  "Base_coerce self desired_type =
     (if desired_type = None \<or> Some (type_of self) = desired_type
      then Inr self else Inl AssertionError)"

text \<open>
  \<open>coerce\<close> dispatches on the class of \<open>self\<close>: \<open>Int\<close> overrides it, every other
  class inherits \<open>Base.coerce\<close>. Python's \<open>float(n)\<close> is the parameter
  \<open>to_float\<close>; it is \<open>None\<close> where \<open>float\<close> raises OverflowError (an integer
  beyond the range of a double).
\<close>

fun coerce :: "(int \<Rightarrow> 'f option) \<Rightarrow> 'f wdl_value \<Rightarrow> ty option \<Rightarrow> error + 'f wdl_value" where
  "coerce to_float (VInt n) desired_type =
     (if desired_type \<noteq> None \<and> isinstance_Float (the desired_type)
      then (case to_float n of
              None \<Rightarrow> Inl OverflowError
            | Some x \<Rightarrow> Inr (VFloat x))
      else Base_coerce (VInt n) desired_type)"
| "coerce to_float self desired_type = Base_coerce self desired_type"

text \<open>
  Python's \<open>float(n)\<close> for an integer \<open>n\<close>: the double nearest to \<open>n\<close> (ties to
  even), and OverflowError when that is not a finite double, that is from the magnitude
  \<open>2 ^ 1024 - 2 ^ 970\<close> on. The rounding of the value is the parameter \<open>nearest\<close>.
\<close>

definition py_float :: "(int \<Rightarrow> 'f) \<Rightarrow> int \<Rightarrow> 'f option" where
  "py_float nearest n = (if \<bar>n\<bar> < 2 ^ 1024 - 2 ^ 970 then Some (nearest n) else None)"

text \<open>\<open>Base.expect\<close>: same as \<open>coerce\<close>.\<close>

definition expect :: "(int \<Rightarrow> 'f option) \<Rightarrow> 'f wdl_value \<Rightarrow> ty option \<Rightarrow> error + 'f wdl_value" where
  "expect to_float self desired_type = coerce to_float self desired_type"

section \<open>Python strings\<close>

text \<open>\<open>s.split(c)\<close> for a separator of one character: never the empty list.\<close>

fun split_on :: "char \<Rightarrow> string \<Rightarrow> string list" where
  "split_on c [] = [[]]"
| "split_on c (x # xs) =
     (if x = c then [] # split_on c xs
      else (case split_on c xs of [] \<Rightarrow> [[x]] | w # ws \<Rightarrow> (x # w) # ws))"

text \<open>\<open>sep.join(xs)\<close>\<close>

fun str_join :: "string \<Rightarrow> string list \<Rightarrow> string" where
  "str_join sep [] = []"
| "str_join sep [x] = x"
| "str_join sep (x # y # ys) = x @ sep @ str_join sep (y # ys)"

definition startswith :: "string \<Rightarrow> string \<Rightarrow> bool" where
  "startswith s p = prefix p s"

definition endswith :: "string \<Rightarrow> string \<Rightarrow> bool" where
  "endswith s p = suffix p s"

definition lstrip :: "char \<Rightarrow> string \<Rightarrow> string" where
  "lstrip c s = dropWhile (\<lambda>x. x = c) s"

definition rstrip :: "char \<Rightarrow> string \<Rightarrow> string" where
  "rstrip c s = rev (dropWhile (\<lambda>x. x = c) (rev s))"

text \<open>\<open>sub in s\<close>\<close>

fun str_contains :: "string \<Rightarrow> string \<Rightarrow> bool" where
  "str_contains [] sub = (sub = [])"
| "str_contains (x # xs) sub = (prefix sub (x # xs) \<or> str_contains xs sub)"

text \<open>
  \<open>s.replace(old, new)\<close>: every occurrence of \<open>old\<close>, found from the left without
  overlap, becomes \<open>new\<close>. For an empty \<open>old\<close> Python puts \<open>new\<close> before every
  character and at the end.
\<close>

function str_replace :: "string \<Rightarrow> string \<Rightarrow> string \<Rightarrow> string" where
  "str_replace s old new =
     (if old = [] then new @ concat (map (\<lambda>c. c # new) s)
      else if s = [] then []
      else if prefix old s then new @ str_replace (drop (length old) s) old new
      else hd s # str_replace (tl s) old new)"
  by pat_completeness auto
termination
  by (relation "measure (\<lambda>(s, old, new). length s)") (auto simp: prefix_def)

declare str_replace.simps [simp del]

text \<open>
  Python indexing \<open>xs[i]\<close> and item assignment \<open>xs[i] = v\<close>: a negative index counts
  from the end, an index out of range raises IndexError.
\<close>

definition py_index :: "'a list \<Rightarrow> int \<Rightarrow> nat option" where
  "py_index xs i =
     (let n = int (length xs); j = (if i < 0 then n + i else i)
      in if 0 \<le> j \<and> j < n then Some (nat j) else None)"

definition py_get :: "'a list \<Rightarrow> int \<Rightarrow> error + 'a" where
  "py_get xs i = (case py_index xs i of None \<Rightarrow> Inl IndexError | Some j \<Rightarrow> Inr (xs ! j))"

definition py_set :: "'a list \<Rightarrow> int \<Rightarrow> 'a \<Rightarrow> error + 'a list" where
  "py_set xs i v = (case py_index xs i of None \<Rightarrow> Inl IndexError | Some j \<Rightarrow> Inr (xs[j := v]))"

text \<open>\<open>range(lo, hi)\<close>\<close>

definition py_range :: "int \<Rightarrow> int \<Rightarrow> int list" where
  "py_range lo hi = [lo..hi - 1]"

text \<open>
  A dictionary is an association list in insertion order with distinct keys:
  \<open>d[k]\<close> raises KeyError for a missing key, \<open>d[k] = v\<close> is \<open>AList.update\<close>
  (the value is replaced in place, or the pair is appended).
\<close>

definition dict_get :: "('k \<times> 'v) list \<Rightarrow> 'k \<Rightarrow> error + 'v" where
  "dict_get d k = (case map_of d k of None \<Rightarrow> Inl KeyError | Some v \<Rightarrow> Inr v)"

section \<open>Python's posixpath\<close>

text \<open>
  The functions of \<open>os.path\<close> that Zip.py calls, after CPython's posixpath.py. They
  work on the text of a path; \<open>abspath\<close> and \<open>relpath\<close> read the current
  directory, here the argument \<open>cwd\<close>.
\<close>

text \<open>\<open>p.rfind('/') + 1\<close>\<close>

definition rfind_sep1 :: "string \<Rightarrow> nat" where
  "rfind_sep1 p = length p - length (takeWhile (\<lambda>c. c \<noteq> CHR ''/'') (rev p))"

definition os_path_basename :: "string \<Rightarrow> string" where
  "os_path_basename p = drop (rfind_sep1 p) p"

definition os_path_dirname :: "string \<Rightarrow> string" where
  "os_path_dirname p =
     (let head = take (rfind_sep1 p) p
      in if head \<noteq> [] \<and> head \<noteq> replicate (length head) (CHR ''/'')
         then rstrip (CHR ''/'') head else head)"

definition join_step :: "string \<Rightarrow> string \<Rightarrow> string" where
  "join_step path b =
     (if startswith b ''/'' then b
      else if path = [] \<or> endswith path ''/'' then path @ b
      else path @ ''/'' @ b)"

text \<open>\<open>os.path.join(a, *p)\<close>\<close>

definition os_path_join :: "string \<Rightarrow> string list \<Rightarrow> string" where
  "os_path_join a p = foldl join_step a p"

definition os_path_isabs :: "string \<Rightarrow> bool" where
  "os_path_isabs s = startswith s ''/''"

text \<open>One round of the loop of \<open>normpath\<close> over the components.\<close>

definition norm_step :: "bool \<Rightarrow> string list \<Rightarrow> string \<Rightarrow> string list" where
  "norm_step initial_slashes new_comps component =
     (if component = [] \<or> component = ''.'' then new_comps
      else if component \<noteq> ''..'' \<or> (\<not> initial_slashes \<and> new_comps = [])
              \<or> (new_comps \<noteq> [] \<and> last new_comps = ''..'')
      then new_comps @ [component]
      else if new_comps \<noteq> [] then butlast new_comps
      else new_comps)"

definition os_path_normpath :: "string \<Rightarrow> string" where
  "os_path_normpath path =
     (if path = [] then ''.''
      else
        let initial_slashes =
              (if startswith path ''/''
               then (if startswith path ''//'' \<and> \<not> startswith path ''///'' then 2 else 1)
               else (0::nat));
            comps = foldl (norm_step (initial_slashes \<noteq> 0)) [] (split_on (CHR ''/'') path);
            path' = replicate initial_slashes (CHR ''/'') @ str_join ''/'' comps
        in if path' = [] then ''.'' else path')"

definition os_path_abspath :: "string \<Rightarrow> string \<Rightarrow> string" where
  "os_path_abspath cwd path =
     os_path_normpath (if \<not> os_path_isabs path then os_path_join cwd [path] else path)"

text \<open>
  \<open>os.path.commonprefix([a, b])\<close>: the longest common prefix, element by element.
  posixpath applies it to two strings (character by character) and, in \<open>relpath\<close>,
  to two lists of components.
\<close>

fun os_path_commonprefix :: "'a list \<Rightarrow> 'a list \<Rightarrow> 'a list" where
  "os_path_commonprefix (x # xs) (y # ys) = (if x = y then x # os_path_commonprefix xs ys else [])"
| "os_path_commonprefix _ _ = []"

definition os_path_relpath :: "string \<Rightarrow> string \<Rightarrow> string \<Rightarrow> error + string" where
  "os_path_relpath cwd path start =
     (if path = [] then Inl ValueError
      else
        let start_list = filter (\<lambda>x. x \<noteq> []) (split_on (CHR ''/'') (os_path_abspath cwd start));
            path_list = filter (\<lambda>x. x \<noteq> []) (split_on (CHR ''/'') (os_path_abspath cwd path));
            i = length (os_path_commonprefix start_list path_list);
            rel_list = replicate (length start_list - i) ''..'' @ drop i path_list
        in if rel_list = [] then Inr ''.''
           else Inr (os_path_join (hd rel_list) (tl rel_list)))"

section \<open>Documents (the part of WDL.Tree that Zip.py reads)\<close>

text \<open>
  Zip.py reads \<open>pos.abspath\<close>, \<open>pos.line\<close> and \<open>pos.end_line\<close> of a source
  position (line numbers are Python integers, counted from one by the parser),
  \<open>uri\<close>, \<open>pos\<close> and \<open>doc\<close> of an import, and \<open>pos\<close>, \<open>source_lines\<close> and
  \<open>imports\<close> of a document. A document is a Python object: an import refers to the
  imported document, and \<open>source_lines\<close> refers to a list object. Both references are
  addresses; \<open>doc_heap\<close> gives the document at an address and \<open>line_store\<close> the list
  of lines at an address, with the next address that \<open>list.copy()\<close> will allocate.
\<close>

record source_position =
  pos_abspath :: string
  pos_line :: int
  pos_end_line :: int

record doc_import =
  imp_uri :: string
  imp_pos :: source_position
  imp_doc :: nat

record document =
  doc_pos :: source_position
  source_lines :: nat
  doc_imports :: "doc_import list"

type_synonym doc_heap = "nat \<Rightarrow> document"

record line_store =
  cells :: "nat \<Rightarrow> string list"
  next_free :: nat

text \<open>
  \<open>xs.copy()\<close>: a new list object with the same elements. The new object gets an
  address that is not in use: one that is not below \<open>next_free\<close> and is not the
  address of \<open>xs\<close> itself.
\<close>

definition list_copy :: "line_store \<Rightarrow> nat \<Rightarrow> nat \<times> line_store" where
  "list_copy st r =
     (let a = max (next_free st) (Suc r)
      in (a, st\<lparr>cells := (cells st)(a := cells st r), next_free := Suc a\<rparr>))"

text \<open>The calls of \<open>logger\<close> append to a log.\<close>

datatype log_level = DEBUG | INFO | WARNING

type_synonym log = "(log_level \<times> string) list"

section \<open>Collecting the documents (build_source_dir, first loop)\<close>

text \<open>
  \<^verbatim>\<open>
    wdls = {}
    queue = [top_doc]
    while queue:
        a_doc = queue.pop()
        for imported_doc in a_doc.imports:
            queue.append(imported_doc.doc)
        wdls[a_doc.pos.abspath] = a_doc
  \<close>
  The loop need not end, so \<open>collect\<close> is a partial function: \<open>None\<close> is the loop
  that runs forever, \<open>Some wdls\<close> the dictionary at its exit.
\<close>

partial_function (option) collect ::
  "doc_heap \<Rightarrow> nat list \<Rightarrow> (string \<times> nat) list \<Rightarrow> (string \<times> nat) list option" where
  "collect heap queue wdls =
     (if queue = [] then Some wdls
      else
        let a_doc = last queue;
            queue' = butlast queue @ map imp_doc (doc_imports (heap a_doc))
        in collect heap queue' (AList.update (pos_abspath (doc_pos (heap a_doc))) a_doc wdls))"

definition collect_wdls :: "doc_heap \<Rightarrow> nat \<Rightarrow> (string \<times> nat) list option" where
  "collect_wdls heap top_doc = collect heap [top_doc] []"

section \<open>Archive paths (build_zip_paths)\<close>

text \<open>The branch for a document outside the main directory.\<close>

definition outside_path :: "string \<Rightarrow> string \<Rightarrow> error + string" where
  "outside_path main_dir abspath =
     (let abspath2 = str_replace abspath ''://'' ''_'';
          prefix' = os_path_commonprefix abspath2 (str_replace main_dir ''://'' ''_'')
      in if \<not> (startswith abspath2 prefix' \<and> endswith prefix' ''/'') then Inl AssertionError
         else Inr (''__outside_wdl/'' @ drop (length prefix') abspath2))"

text \<open>
  One round of the loop over \<open>wdls.keys()\<close>: the archive path of \<open>abspath\<close> and the
  new value of \<open>outside_warn\<close>.
\<close>

definition zip_path_of :: "string \<Rightarrow> string \<Rightarrow> string \<Rightarrow> bool \<Rightarrow> error + string \<times> bool" where
  "zip_path_of cwd main_dir abspath outside_warn =
     (if startswith abspath main_dir
      then (case os_path_relpath cwd abspath main_dir of
              Inl e \<Rightarrow> Inl e
            | Inr p \<Rightarrow> Inr (p, outside_warn))
      else (case outside_path main_dir abspath of
              Inl e \<Rightarrow> Inl e
            | Inr p \<Rightarrow> Inr (p, True)))"

fun zip_paths_loop ::
  "string \<Rightarrow> string \<Rightarrow> string list \<Rightarrow> (string \<times> string) list \<times> bool \<times> log
     \<Rightarrow> error + (string \<times> string) list \<times> bool \<times> log" where
  "zip_paths_loop cwd main_dir [] st = Inr st"
| "zip_paths_loop cwd main_dir (abspath # keys) (ans, outside_warn, lg) =
     (case zip_path_of cwd main_dir abspath outside_warn of
        Inl e \<Rightarrow> Inl e
      | Inr pw \<Rightarrow>
          zip_paths_loop cwd main_dir keys
            (AList.update abspath (fst pw) ans, snd pw,
             lg @ [(INFO, fst pw @ '' <= '' @ abspath)]))"

definition outside_warning :: string where
  "outside_warning =
     ''One or more source files are imported from outside the top-level WDL's directory.''
     @ '' The source archive will store them under __outside_wdl/''
     @ '' and WDL import statements will be rewritten to match.''"

text \<open>
  \<open>build_zip_paths\<close> returns the dictionary \<open>ans\<close>; the second component is what it
  has logged.
\<close>

definition build_zip_paths ::
  "string \<Rightarrow> string \<Rightarrow> (string \<times> 'd) list \<Rightarrow> error + (string \<times> string) list \<times> log" where
  "build_zip_paths cwd main_dir wdls =
     (case zip_paths_loop cwd main_dir (map fst wdls) ([], False, []) of
        Inl e \<Rightarrow> Inl e
      | Inr (ans, outside_warn, lg) \<Rightarrow>
          Inr (ans, if outside_warn then lg @ [(WARNING, outside_warning)] else lg))"

section \<open>Import graphs\<close>

text \<open>
  \<open>depth_ok heap n d\<close>: every chain of imports that starts at document \<open>d\<close> has
  fewer than \<open>n\<close> documents. Some \<open>n\<close> exists for \<open>d\<close> exactly when the import graph
  below \<open>d\<close> has no cycle.
\<close>

fun depth_ok :: "doc_heap \<Rightarrow> nat \<Rightarrow> nat \<Rightarrow> bool" where
  "depth_ok heap 0 d = False"
| "depth_ok heap (Suc n) d = (\<forall>imp\<in>set (doc_imports (heap d)). depth_ok heap n (imp_doc imp))"

text \<open>
  Example documents: \<open>wdl_doc path imps\<close> is a document at \<open>path\<close> that imports, for
  every pair \<open>(uri, d)\<close> of \<open>imps\<close>, the document at address \<open>d\<close> under the URI
  \<open>uri\<close>. In \<open>cyclic_heap\<close> the document \<open>/m/a.wdl\<close> imports itself. In
  \<open>diamond_heap\<close> the main document imports \<open>a.wdl\<close> and \<open>b.wdl\<close>, and both import
  \<open>c.wdl\<close>.
\<close>

definition wdl_doc :: "string \<Rightarrow> (string \<times> nat) list \<Rightarrow> document" where
  "wdl_doc path imps =
     \<lparr>doc_pos = \<lparr>pos_abspath = path, pos_line = 1, pos_end_line = 1\<rparr>,
      source_lines = 0,
      doc_imports = map (\<lambda>(uri, d). \<lparr>imp_uri = uri,
                                       imp_pos = \<lparr>pos_abspath = path, pos_line = 1, pos_end_line = 1\<rparr>,
                                       imp_doc = d\<rparr>) imps\<rparr>"

definition cyclic_heap :: doc_heap where
  "cyclic_heap d = wdl_doc ''/m/a.wdl'' [(''a.wdl'', 0)]"

definition diamond_heap :: doc_heap where
  "diamond_heap d =
     (if d = 0 then wdl_doc ''/m/main.wdl'' [(''a.wdl'', 1), (''b.wdl'', 2)]
      else if d = 1 then wdl_doc ''/m/a.wdl'' [(''c.wdl'', 3)]
      else if d = 2 then wdl_doc ''/m/b.wdl'' [(''c.wdl'', 3)]
      else wdl_doc ''/m/c.wdl'' [])"

section \<open>Rewriting the imports (rewrite_imports)\<close>

definition dquote :: char where
  "dquote = CHR 0x22"

text \<open>\<open>f'"{uri}"'\<close>\<close>

definition quoted :: "string \<Rightarrow> string" where
  "quoted uri = dquote # uri @ [dquote]"

text \<open>
  \<open>new_uri\<close>: the path from the directory of this document in the archive to the
  imported document in the archive.
\<close>

definition new_uri_of ::
  "string \<Rightarrow> doc_heap \<Rightarrow> document \<Rightarrow> (string \<times> string) list \<Rightarrow> doc_import \<Rightarrow> error + string" where
  "new_uri_of cwd heap doc zip_paths imp =
     (case dict_get zip_paths (pos_abspath (doc_pos (heap (imp_doc imp)))) of
        Inl e \<Rightarrow> Inl e
      | Inr target \<Rightarrow>
          (case dict_get zip_paths (pos_abspath (doc_pos doc)) of
             Inl e \<Rightarrow> Inl e
           | Inr own \<Rightarrow> os_path_relpath cwd target (os_path_dirname own)))"

text \<open>
  The body of the inner loop \<open>for lineno in range(lo, hi)\<close>, on the list object at
  address \<open>r\<close> (the copy). The state is the store, \<open>found\<close> and the log.
\<close>

definition rewrite_line ::
  "string \<Rightarrow> doc_heap \<Rightarrow> document \<Rightarrow> (string \<times> string) list \<Rightarrow> doc_import \<Rightarrow> nat
     \<Rightarrow> int \<Rightarrow> line_store \<times> bool \<times> log \<Rightarrow> error + line_store \<times> bool \<times> log" where
  "rewrite_line cwd heap doc zip_paths imp r lineno s =
     (case s of (st, found, lg) \<Rightarrow>
     (case py_get (cells st r) lineno of
        Inl e \<Rightarrow> Inl e
      | Inr line \<Rightarrow>
     (case new_uri_of cwd heap doc zip_paths imp of
        Inl e \<Rightarrow> Inl e
      | Inr new_uri \<Rightarrow>
          let old_uri_pattern = quoted (imp_uri imp);
              found' = (if str_contains line old_uri_pattern then True else found);
              line2 = str_replace line old_uri_pattern (quoted new_uri)
          in if line \<noteq> line2
             then (case py_set (cells st r) lineno line2 of
                     Inl e \<Rightarrow> Inl e
                   | Inr lines' \<Rightarrow>
                       Inr (st\<lparr>cells := (cells st)(r := lines')\<rparr>, found',
                            lg @ [(DEBUG, pos_abspath (doc_pos doc)),
                                  (DEBUG, ''  '' @ line),
                                  (DEBUG, ''  => '' @ line2)]))
             else Inr (st, found', lg))))"

fun rewrite_lines ::
  "string \<Rightarrow> doc_heap \<Rightarrow> document \<Rightarrow> (string \<times> string) list \<Rightarrow> doc_import \<Rightarrow> nat
     \<Rightarrow> int list \<Rightarrow> line_store \<times> bool \<times> log \<Rightarrow> error + line_store \<times> bool \<times> log" where
  "rewrite_lines cwd heap doc zip_paths imp r [] s = Inr s"
| "rewrite_lines cwd heap doc zip_paths imp r (lineno # linenos) s =
     (case rewrite_line cwd heap doc zip_paths imp r lineno s of
        Inl e \<Rightarrow> Inl e
      | Inr s' \<Rightarrow> rewrite_lines cwd heap doc zip_paths imp r linenos s')"

text \<open>The outer loop \<open>for imp in doc.imports\<close>, with its assertion.\<close>

definition rewrite_edge ::
  "string \<Rightarrow> doc_heap \<Rightarrow> document \<Rightarrow> (string \<times> string) list \<Rightarrow> nat
     \<Rightarrow> doc_import \<Rightarrow> line_store \<times> log \<Rightarrow> error + line_store \<times> log" where
  "rewrite_edge cwd heap doc zip_paths r imp s =
     (let lo = pos_line (imp_pos imp) - 1;
          hi = pos_end_line (imp_pos imp)
      in case rewrite_lines cwd heap doc zip_paths imp r (py_range lo hi) (fst s, False, snd s) of
           Inl e \<Rightarrow> Inl e
         | Inr (st', found, lg') \<Rightarrow>
             if \<not> found then Inl AssertionError else Inr (st', lg'))"

fun rewrite_edges ::
  "string \<Rightarrow> doc_heap \<Rightarrow> document \<Rightarrow> (string \<times> string) list \<Rightarrow> nat
     \<Rightarrow> doc_import list \<Rightarrow> line_store \<times> log \<Rightarrow> error + line_store \<times> log" where
  "rewrite_edges cwd heap doc zip_paths r [] s = Inr s"
| "rewrite_edges cwd heap doc zip_paths r (imp # imps) s =
     (case rewrite_edge cwd heap doc zip_paths r imp s of
        Inl e \<Rightarrow> Inl e
      | Inr s' \<Rightarrow> rewrite_edges cwd heap doc zip_paths r imps s')"

text \<open>
  \<open>rewrite_imports\<close> returns the address of the new list; the store after the call
  and the log come with it.
\<close>

definition rewrite_imports ::
  "string \<Rightarrow> doc_heap \<Rightarrow> line_store \<Rightarrow> document \<Rightarrow> (string \<times> string) list
     \<Rightarrow> error + nat \<times> line_store \<times> log" where
  "rewrite_imports cwd heap st doc zip_paths =
     (case list_copy st (source_lines doc) of
        (r, st1) \<Rightarrow>
          (case rewrite_edges cwd heap doc zip_paths r (doc_imports doc) (st1, []) of
             Inl e \<Rightarrow> Inl e
           | Inr (st2, lg) \<Rightarrow> Inr (r, st2, lg)))"

text \<open>
  The value of a call of \<open>rewrite_imports\<close> as the caller reads it: the lines of the
  returned list.
\<close>

definition returned_lines :: "error + nat \<times> line_store \<times> log \<Rightarrow> error + string list" where
  "returned_lines res =
     (case res of Inl e \<Rightarrow> Inl e | Inr (r, st', lg) \<Rightarrow> Inr (cells st' r))"


text \<open>
  Example documents for \<open>rewrite_imports\<close>. The main document \<open>/m/main.wdl\<close> has its
  lines at address 0 and imports the document \<open>/m/lib/y.wdl\<close>; \<open>import_at\<close> is an
  import edge with its URI and its span of lines.
\<close>

definition import_at :: "string \<Rightarrow> int \<Rightarrow> int \<Rightarrow> doc_import" where
  "import_at uri line end_line =
     \<lparr>imp_uri = uri,
      imp_pos = \<lparr>pos_abspath = ''/m/main.wdl'', pos_line = line, pos_end_line = end_line\<rparr>,
      imp_doc = 1\<rparr>"

definition main_doc :: "doc_import list \<Rightarrow> document" where
  "main_doc imps =
     \<lparr>doc_pos = \<lparr>pos_abspath = ''/m/main.wdl'', pos_line = 1, pos_end_line = 1\<rparr>,
      source_lines = 0,
      doc_imports = imps\<rparr>"

definition lib_heap :: doc_heap where
  "lib_heap d = (if d = 0 then main_doc [] else wdl_doc ''/m/lib/y.wdl'' [])"

definition lib_zip_paths :: "(string \<times> string) list" where
  "lib_zip_paths = [(''/m/main.wdl'', ''main.wdl''), (''/m/lib/y.wdl'', ''lib/y.wdl'')]"

definition lines_store :: "string list \<Rightarrow> line_store" where
  "lines_store ls = \<lparr>cells = (\<lambda>a. if a = 0 then ls else []), next_free = 1\<rparr>"

section \<open>Canonical paths below the main directory\<close>

text \<open>
  A component of a canonical path is not empty and is neither \<open>.\<close> nor \<open>..\<close>.
  \<open>canonical_below main_dir abspath\<close>: \<open>abspath\<close> starts with \<open>main_dir\<close> and the
  rest of it consists of such components.
\<close>

definition good_comp :: "string \<Rightarrow> bool" where
  "good_comp x = (x \<noteq> [] \<and> x \<noteq> ''.'' \<and> x \<noteq> ''..'')"

definition canonical_below :: "string \<Rightarrow> string \<Rightarrow> bool" where
  "canonical_below main_dir abspath =
     (startswith abspath main_dir
      \<and> (\<forall>c\<in>set (split_on (CHR ''/'') (drop (length main_dir) abspath)). good_comp c))"

section \<open>Files and the operating system\<close>

text \<open>
  A file system gives the node at a path: a regular file with its contents, or a
  directory. Paths are looked up as the texts the program passes; symbolic links are
  not modelled. What the operating system and the libraries decide outside the sources
  is a field of \<open>env\<close>:
  \<^item> \<open>getcwd\<close>, the current directory, and \<open>gettempdir\<close>, the directory of temporary files;
  \<^item> \<open>temp_name\<close>, the random part of the name of a new temporary directory;
  \<^item> \<open>permits\<close>, whether an operation that changes the file system succeeds in a
    given state (permissions, free space, the state of the disk) or raises OSError;
  \<^item> \<open>json_loads\<close>, the JSON parser (\<open>None\<close> where it raises), and \<open>json_dumps\<close>;
  \<^item> \<open>archive_encode\<close> and \<open>archive_decode\<close>, the archive formats of \<open>shutil\<close>
    (\<open>None\<close> where they raise);
  \<^item> \<open>path_really_within\<close>, the helper of \<open>WDL._util\<close> that \<open>unpack\<close> calls; the
    module is not among the sources.
\<close>

datatype node = File string | Dir

type_synonym fs = "string \<Rightarrow> node option"

text \<open>
  A JSON value as \<open>json.load\<close> returns it: an object is a dictionary. Zip.py reads no
  number, so integers stand for the numbers.
\<close>

datatype json =
    JNull
  | JBool bool
  | JNum int
  | JStr string
  | JArr "json list"
  | JObj "(string \<times> json) list"

datatype fs_op =
    Mkdtemp string
  | Makedirs string
  | WriteFile string
  | MakeArchive string string
  | UnpackArchive string string
  | Rename string string

record env =
  getcwd :: string
  gettempdir :: string
  temp_name :: "fs \<Rightarrow> string"
  permits :: "fs_op \<Rightarrow> fs \<Rightarrow> bool"
  json_loads :: "string \<Rightarrow> json option"
  json_dumps :: "json \<Rightarrow> string"
  archive_encode :: "string \<Rightarrow> fs \<Rightarrow> string \<Rightarrow> string option"
  archive_decode :: "string \<Rightarrow> (string \<times> node) list option"
  path_really_within :: "fs \<Rightarrow> string \<Rightarrow> string \<Rightarrow> bool"

definition os_path_isdir :: "fs \<Rightarrow> string \<Rightarrow> bool" where
  "os_path_isdir files p = (files p = Some Dir)"

definition os_path_isfile :: "fs \<Rightarrow> string \<Rightarrow> bool" where
  "os_path_isfile files p = (case files p of Some (File c) \<Rightarrow> True | _ \<Rightarrow> False)"

text \<open>
  \<open>tempfile.TemporaryDirectory(prefix=...)\<close> on entering: a new directory in the
  directory of temporary files, named by the prefix and a random part.
\<close>

definition mkdtemp_name :: "env \<Rightarrow> fs \<Rightarrow> string \<Rightarrow> string" where
  "mkdtemp_name env files pre = os_path_join (gettempdir env) [pre @ temp_name env files]"

definition TemporaryDirectory :: "env \<Rightarrow> fs \<Rightarrow> string \<Rightarrow> error + string \<times> fs" where
  "TemporaryDirectory env files pre =
     (let name = mkdtemp_name env files pre
      in if permits env (Mkdtemp name) files then Inr (name, files(name \<mapsto> Dir))
         else Inl OSError)"

text \<open>
  The exit of a temporary directory removes it with everything below it; the exit of
  the \<open>ExitStack\<close> does so for every directory it has entered, the last one first.
\<close>

definition rmtree :: "fs \<Rightarrow> string \<Rightarrow> fs" where
  "rmtree files d = (\<lambda>p. if p = d \<or> startswith p (d @ ''/'') then None else files p)"

definition exit_stack :: "fs \<Rightarrow> string list \<Rightarrow> fs" where
  "exit_stack files cleanup = foldl rmtree files cleanup"

text \<open>
  \<open>shutil.unpack_archive(filename, extract_dir)\<close>: the entries of the archive are
  written below \<open>extract_dir\<close>; \<open>None\<close> when it raises.
\<close>

definition shutil_unpack_archive :: "env \<Rightarrow> fs \<Rightarrow> string \<Rightarrow> string \<Rightarrow> fs option" where
  "shutil_unpack_archive env files filename extract_dir =
     (case files filename of
        Some (File c) \<Rightarrow>
          (case archive_decode env c of
             None \<Rightarrow> None
           | Some entries \<Rightarrow>
               if permits env (UnpackArchive filename extract_dir) files
               then Some (foldl (\<lambda>f e. f(os_path_join extract_dir [fst e] \<mapsto> snd e)) files entries)
               else None)
      | _ \<Rightarrow> None)"

text \<open>\<open>with open(fn) as infile: json.load(infile)\<close>; \<open>None\<close> when either raises.\<close>

definition json_load :: "env \<Rightarrow> fs \<Rightarrow> string \<Rightarrow> json option" where
  "json_load env files fn =
     (case files fn of Some (File c) \<Rightarrow> json_loads env c | _ \<Rightarrow> None)"

section \<open>Unpacking (unpack)\<close>

record unpacked_zip =
  uz_dir :: string
  uz_main_wdl :: string
  uz_input_file :: "string option"

text \<open>
  The first part of \<open>unpack\<close>, up to the name of the manifest: the value of
  \<open>archive_fn\<close> after the test for a directory, \<open>manifest_fn\<close>, and the temporary
  directories that the \<open>ExitStack\<close> has entered. An exception leaves the \<open>with\<close>
  block, which removes them.
\<close>

definition find_manifest ::
  "env \<Rightarrow> fs \<Rightarrow> string \<Rightarrow> (error + string \<times> string \<times> string list) \<times> fs" where
  "find_manifest env files archive_fn0 =
     (let archive_fn = (if os_path_isdir files archive_fn0
                        then os_path_join archive_fn0 [''MANIFEST.json''] else archive_fn0)
      in if os_path_basename archive_fn = ''MANIFEST.json''
         then (Inr (archive_fn, archive_fn, []), files)
         else (case TemporaryDirectory env files ''miniwdl_run_zip_'' of
                 Inl e \<Rightarrow> (Inl e, files)
               | Inr (dn, files1) \<Rightarrow>
                   (case shutil_unpack_archive env files1 archive_fn dn of
                      None \<Rightarrow> (Inl (InputError (''Unreadable source archive '' @ archive_fn)),
                                exit_stack files1 [dn])
                    | Some files2 \<Rightarrow>
                        (Inr (archive_fn, os_path_join dn [''MANIFEST.json''], [dn]), files2))))"

text \<open>
  The \<open>try\<close> block that loads the manifest and asserts that it is a dictionary with a
  string \<open>mainWorkflowURL\<close>: \<open>None\<close> when anything in it raises.
\<close>

definition load_manifest :: "env \<Rightarrow> fs \<Rightarrow> string \<Rightarrow> (string \<times> json) list option" where
  "load_manifest env files manifest_fn =
     (case json_load env files manifest_fn of
        Some (JObj manifest) \<Rightarrow>
          (case map_of manifest ''mainWorkflowURL'' of
             Some (JStr s) \<Rightarrow> Some manifest
           | _ \<Rightarrow> None)
      | _ \<Rightarrow> None)"

text \<open>\<open>manifest["mainWorkflowURL"]\<close>, a string after the assertion.\<close>

definition main_workflow_url :: "(string \<times> json) list \<Rightarrow> string" where
  "main_workflow_url manifest =
     (case map_of manifest ''mainWorkflowURL'' of Some (JStr s) \<Rightarrow> s | _ \<Rightarrow> [])"

text \<open>
  \<open>input_file\<close>: the first element of \<open>inputFileURLs\<close> when that is a list, is not
  empty and its first element is a string; \<open>None\<close> otherwise.
\<close>

definition first_input_file :: "(string \<times> json) list \<Rightarrow> string option" where
  "first_input_file manifest =
     (case map_of manifest ''inputFileURLs'' of
        Some (JArr (JStr s # rest)) \<Rightarrow> Some s
      | _ \<Rightarrow> None)"

text \<open>
  \<open>os.path.join(dn, input_file) if input_file else None\<close>: the test is Python's truth
  value, false for \<open>None\<close> and for the empty string.
\<close>

definition input_file_abs_of :: "string \<Rightarrow> string option \<Rightarrow> string option" where
  "input_file_abs_of dn input_file =
     (case input_file of
        None \<Rightarrow> None
      | Some s \<Rightarrow> if s = [] then None else Some (os_path_join dn [s]))"

text \<open>
  The sanity check and the value that \<open>unpack\<close> yields. \<open>input_file_abs\<close>, when it is
  not \<open>None\<close>, is a path below \<open>dn\<close> and so not the empty string: its truth value is
  whether it is not \<open>None\<close>.
\<close>

definition sanity_check ::
  "env \<Rightarrow> fs \<Rightarrow> string \<Rightarrow> string \<Rightarrow> (string \<times> json) list \<Rightarrow> error + unpacked_zip" where
  "sanity_check env files archive_fn manifest_fn manifest =
     (let dn = os_path_abspath (getcwd env) (os_path_dirname manifest_fn);
          main_wdl = main_workflow_url manifest;
          input_file = first_input_file manifest;
          main_wdl_abs = os_path_join dn [main_wdl];
          input_file_abs = input_file_abs_of dn input_file
      in if \<not> (os_path_isfile files main_wdl_abs \<and> path_really_within env files main_wdl_abs dn)
            \<or> (case input_file_abs of
                  None \<Rightarrow> False
                | Some p \<Rightarrow> \<not> (os_path_isfile files p \<and> path_really_within env files p dn))
         then Inl (InputError (''MANIFEST.json refers to missing or invalid files in '' @ archive_fn))
         else Inr \<lparr>uz_dir = dn, uz_main_wdl = main_wdl_abs, uz_input_file = input_file_abs\<rparr>)"

text \<open>
  \<open>unpack\<close> up to its \<open>yield\<close>: the value it yields with the directories to remove
  when the caller leaves the context, or the exception it raises, and the file system
  at that moment.
\<close>

definition unpack ::
  "env \<Rightarrow> fs \<Rightarrow> string \<Rightarrow> (error + unpacked_zip \<times> string list) \<times> fs" where
  "unpack env files archive_fn0 =
     (case find_manifest env files archive_fn0 of
        (Inl e, files1) \<Rightarrow> (Inl e, files1)
      | (Inr (archive_fn, manifest_fn, cleanup), files1) \<Rightarrow>
          (case load_manifest env files1 manifest_fn of
             None \<Rightarrow> (Inl (InputError (''Missing or invalid MANIFEST.json in '' @ archive_fn)),
                       exit_stack files1 cleanup)
           | Some manifest \<Rightarrow>
               (case sanity_check env files1 archive_fn manifest_fn manifest of
                  Inl e \<Rightarrow> (Inl e, exit_stack files1 cleanup)
                | Inr unpacked \<Rightarrow> (Inr (unpacked, cleanup), files1))))"

text \<open>
  An example environment and file system. The directory \<open>/w\<close> holds an unpacked
  archive whose manifest names \<open>main.wdl\<close> and has the empty string as the first of
  \<open>inputFileURLs\<close>; the manifest in \<open>/v\<close> names \<open>../../etc/passwd\<close>, a path
  that leads to a regular file; \<open>/d/src.zip\<close> is an archive of a manifest with only
  \<open>mainWorkflowURL\<close> and of \<open>main.wdl\<close>. The parser and the archive format of the
  example read the texts \<open>M0\<close>, \<open>M1\<close>, \<open>M2\<close> and \<open>Z0\<close> that stand for these
  files; a path is really within a directory when it goes below it without \<open>..\<close>;
  a temporary directory gets the name \<open>0001\<close>, or \<open>0002\<close> when the first
  temporary directory of \<open>build\<close> exists.
\<close>

definition ex_files :: fs where
  "ex_files =
     [''/w'' \<mapsto> Dir,
      ''/w/MANIFEST.json'' \<mapsto> File ''M1'',
      ''/w/main.wdl'' \<mapsto> File ''version 1.0'',
      ''/v'' \<mapsto> Dir,
      ''/v/MANIFEST.json'' \<mapsto> File ''M2'',
      ''/v/../../etc/passwd'' \<mapsto> File ''root:x:0:0'',
      ''/d'' \<mapsto> Dir,
      ''/d/src.zip'' \<mapsto> File ''Z0'']"

definition ex_env :: env where
  "ex_env =
     \<lparr>getcwd = ''/cwd'',
      gettempdir = ''/tmp'',
      temp_name = (\<lambda>files. if files ''/tmp/miniwdl_zip_0001'' = None then ''0001'' else ''0002''),
      permits = (\<lambda>op files. True),
      json_loads = (\<lambda>c. if c = ''M0'' then Some (JObj [(''mainWorkflowURL'', JStr ''main.wdl'')])
                         else if c = ''M1''
                         then Some (JObj [(''mainWorkflowURL'', JStr ''main.wdl''),
                                          (''inputFileURLs'', JArr [JStr []])])
                         else if c = ''M2''
                         then Some (JObj [(''mainWorkflowURL'', JStr ''../../etc/passwd'')])
                         else None),
      json_dumps = (\<lambda>j. ''{}''),
      archive_encode = (\<lambda>format files root_dir. if format = ''zip'' then Some ''Z0'' else None),
      archive_decode = (\<lambda>c. if c = ''Z0''
                             then Some [(''MANIFEST.json'', File ''M0''),
                                        (''main.wdl'', File ''version 1.0'')]
                             else None),
      path_really_within = (\<lambda>files p d. startswith p (d @ ''/'')
                                          \<and> ''..'' \<notin> set (split_on (CHR ''/'') p))\<rparr>"

section \<open>Building the archive (build)\<close>







text \<open>
  The state of a call of \<open>build\<close>: the file system, the store of the lists of lines,
  and the temporary directories that the \<open>ExitStack\<close> \<open>cleanup\<close> has entered, the
  last one first. A step returns its value or its exception together with the state.
  The calls of \<open>logger\<close> in \<open>build\<close> and \<open>build_source_dir\<close> are left out.
\<close>

record build_state =
  bs_files :: fs
  bs_store :: line_store
  bs_cleanup :: "string list"













text \<open>
  \<open>build_inv env archive files0 s\<close>: in the state \<open>s\<close> there is a regular file at
  \<open>archive\<close> only if there was one in the file system \<open>files0\<close>, and every directory
  that \<open>cleanup\<close> will remove is a temporary directory of the call.
\<close>

definition build_inv :: "env \<Rightarrow> string \<Rightarrow> fs \<Rightarrow> build_state \<Rightarrow> bool" where
  "build_inv env archive files0 s =
     ((os_path_isfile (bs_files s) archive \<longrightarrow> os_path_isfile files0 archive)
      \<and> (\<forall>d\<in>set (bs_cleanup s). \<exists>f. d = mkdtemp_name env f ''miniwdl_zip_''))"





section \<open>Properties of coercion\<close>

text \<open>
  C9 (as amended): coercing an Int value with desired type Float returns a Float value
  whose raw value is the floating-point conversion of the integer, for every integer
  that \<open>float\<close> converts. The result is a new value; the Int value is an immutable
  argument.
\<close>

theorem Int_coerce_Float:
  "to_float n = Some x \<Longrightarrow> coerce to_float (VInt n) (Some TFloat) = Inr (VFloat x)"
  by simp

theorem Int_coerce_Float_witness:
  "(\<lambda>n. if \<bar>n\<bar> < 2 ^ 1024 then Some (real_of_int n) else None) 3 = Some (3::real) \<and>
   coerce (\<lambda>n. if \<bar>n\<bar> < 2 ^ 1024 then Some (real_of_int n) else None) (VInt 3) (Some TFloat)
     = Inr (VFloat (3::real))"
  using Int_coerce_Float [of "\<lambda>n. if \<bar>n\<bar> < 2 ^ 1024 then Some (real_of_int n) else None" 3 3]
  by simp

text \<open>
  C9 as stated, for every Int value, fails: Python integers are unbounded, \<open>float\<close>
  raises OverflowError on \<open>2 ^ 1024\<close>, and so does \<open>Int.coerce\<close>, which returns no
  Float value.
\<close>

theorem Int_coerce_Float_overflow:
  "coerce (py_float real_of_int) (VInt (2 ^ 1024)) (Some TFloat) = Inl OverflowError"
  by (simp add: py_float_def)

text \<open>
  C10: for every runtime value, \<open>coerce\<close> with no desired type, or with the value's own
  type as the desired type, returns the value itself.
\<close>

theorem coerce_identity:
  "coerce to_float v None = Inr v \<and> coerce to_float v (Some (type_of v)) = Inr v"
  by (cases v) (simp_all add: Base_coerce_def)

section \<open>Splitting, joining and normalising paths\<close>

lemma split_on_ne [simp]: "split_on c s \<noteq> []"
  by (induction s) (auto split: list.splits)

lemma split_on_append: "split_on c (a @ c # b) = split_on c a @ split_on c b"
  by (induction a) (auto split: list.splits)

lemma split_on_no_sep: "x \<in> set (split_on c s) \<Longrightarrow> c \<notin> set x"
  by (induction s arbitrary: x) (auto split: list.splits if_splits)

lemma str_join_split: "str_join [c] (split_on c s) = s"
proof (induction s)
  case Nil
  then show ?case by simp
next
  case (Cons x s)
  show ?case
  proof (cases "x = c")
    case True
    obtain w ws where "split_on c s = w # ws" by (cases "split_on c s") auto
    with True Cons show ?thesis by simp
  next
    case False
    obtain w ws where "split_on c s = w # ws" by (cases "split_on c s") auto
    with False Cons show ?thesis by (cases ws) auto
  qed
qed

lemma split_on_no_occ: "c \<notin> set x \<Longrightarrow> split_on c x = [x]"
  by (induction x) auto

lemma split_on_join:
  "xs \<noteq> [] \<Longrightarrow> \<forall>x\<in>set xs. c \<notin> set x \<Longrightarrow> split_on c (str_join [c] xs) = xs"
proof (induction xs)
  case Nil
  then show ?case by simp
next
  case (Cons x xs)
  show ?case
  proof (cases xs)
    case Nil
    with Cons.prems show ?thesis by (simp add: split_on_no_occ)
  next
    case (Cons y ys)
    with Cons.IH Cons.prems have "split_on c (str_join [c] (y # ys)) = y # ys" by simp
    with Cons Cons.prems show ?thesis
      using split_on_append[of c x "str_join [c] (y # ys)"]
      by (simp add: split_on_no_occ)
  qed
qed


lemma foldl_norm_step_good:
  "\<forall>x\<in>set cs. good_comp x \<Longrightarrow> foldl (norm_step b) acc cs = acc @ cs"
  by (induction cs arbitrary: acc) (auto simp: norm_step_def good_comp_def)

lemma norm_step_inv:
  "\<forall>x\<in>set acc. x \<noteq> [] \<and> c \<notin> set x \<Longrightarrow> c \<notin> set y
   \<Longrightarrow> \<forall>x\<in>set (norm_step b acc y). x \<noteq> [] \<and> c \<notin> set x"
  by (auto simp: norm_step_def dest: in_set_butlastD)

lemma foldl_norm_step_inv:
  "\<forall>x\<in>set acc. x \<noteq> [] \<and> c \<notin> set x \<Longrightarrow> \<forall>y\<in>set cs. c \<notin> set y
   \<Longrightarrow> \<forall>x\<in>set (foldl (norm_step b) acc cs). x \<noteq> [] \<and> c \<notin> set x"
proof (induction cs arbitrary: acc)
  case Nil
  then show ?case by simp
next
  case (Cons y cs)
  from Cons.prems(2) have y: "c \<notin> set y" and cs: "\<forall>y\<in>set cs. c \<notin> set y" by simp_all
  have step: "\<forall>x\<in>set (norm_step b acc y). x \<noteq> [] \<and> c \<notin> set x"
    by (rule norm_step_inv [OF Cons.prems(1) y])
  have "\<forall>x\<in>set (foldl (norm_step b) (norm_step b acc y) cs). x \<noteq> [] \<and> c \<notin> set x"
    by (rule Cons.IH [OF step cs])
  then show ?case by simp
qed

lemma split_on_replicate:
  "split_on c (replicate k c @ s) = replicate k [] @ split_on c s"
  by (induction k) auto

lemma filter_ne_all: "\<forall>x\<in>set xs. x \<noteq> [] \<Longrightarrow> filter (\<lambda>x. x \<noteq> []) xs = xs"
  by (induction xs) auto


lemma normpath_abs_form:
  assumes "startswith p ''/''"
  shows "\<exists>k. os_path_normpath p
           = replicate k (CHR ''/'') @ str_join ''/'' (foldl (norm_step True) [] (split_on (CHR ''/'') p))"
proof -
  from assms have pne: "p \<noteq> []" by (auto simp: startswith_def)
  let ?k = "if startswith p ''//'' \<and> \<not> startswith p ''///'' then 2 else (1::nat)"
  have "os_path_normpath p
      = replicate ?k (CHR ''/'') @ str_join ''/'' (foldl (norm_step True) [] (split_on (CHR ''/'') p))"
    using assms pne unfolding os_path_normpath_def Let_def by simp
  then show ?thesis by blast
qed

lemma comps_normpath_abs:
  assumes "startswith p ''/''"
  shows "filter (\<lambda>x. x \<noteq> []) (split_on (CHR ''/'') (os_path_normpath p))
         = foldl (norm_step True) [] (split_on (CHR ''/'') p)"
proof -
  let ?N = "foldl (norm_step True) [] (split_on (CHR ''/'') p)"
  have inv: "\<forall>x\<in>set ?N. x \<noteq> [] \<and> CHR ''/'' \<notin> set x"
    by (rule foldl_norm_step_inv) (auto dest: split_on_no_sep)
  obtain k where np: "os_path_normpath p = replicate k (CHR ''/'') @ str_join ''/'' ?N"
    using normpath_abs_form[OF assms] by blast
  have "filter (\<lambda>x. x \<noteq> []) (split_on (CHR ''/'') (str_join ''/'' ?N)) = ?N"
  proof (cases "?N = []")
    case True
    then show ?thesis by simp
  next
    case False
    with inv have "split_on (CHR ''/'') (str_join ''/'' ?N) = ?N"
      by (intro split_on_join) auto
    with inv show ?thesis by (simp add: filter_ne_all)
  qed
  then show ?thesis unfolding np by (simp add: split_on_replicate)
qed


lemma commonprefix_append: "os_path_commonprefix S (S @ R) = S"
  by (induction S) auto

lemma endswith_sep: "endswith p [c] \<longleftrightarrow> p \<noteq> [] \<and> last p = c"
  by (cases p rule: rev_cases) (auto simp: endswith_def suffix_def)

lemma str_join_concat: "str_join [c] (a # xs) = a @ concat (map (\<lambda>x. c # x) xs)"
  by (induction xs arbitrary: a) auto

lemma join_step_comp:
  assumes "path \<noteq> []" "last path \<noteq> CHR ''/''" "b \<noteq> []" "CHR ''/'' \<notin> set b"
  shows "join_step path b = path @ CHR ''/'' # b"
proof -
  from assms(3,4) have "\<not> startswith b ''/''"
    by (cases b) (auto simp: startswith_def)
  moreover from assms(1,2) have "\<not> endswith path ''/''"
    by (simp add: endswith_sep)
  ultimately show ?thesis using assms(1) by (simp add: join_step_def)
qed

lemma foldl_join_step:
  "path \<noteq> [] \<Longrightarrow> last path \<noteq> CHR ''/'' \<Longrightarrow> \<forall>x\<in>set xs. x \<noteq> [] \<and> CHR ''/'' \<notin> set x
   \<Longrightarrow> foldl join_step path xs = path @ concat (map (\<lambda>x. CHR ''/'' # x) xs)"
proof (induction xs arbitrary: path)
  case Nil
  then show ?case by simp
next
  case (Cons b xs)
  from Cons.prems(3) have b: "b \<noteq> []" "CHR ''/'' \<notin> set b"
    and xs: "\<forall>x\<in>set xs. x \<noteq> [] \<and> CHR ''/'' \<notin> set x" by simp_all
  have js: "join_step path b = path @ CHR ''/'' # b"
    by (rule join_step_comp [OF Cons.prems(1,2) b])
  have ne: "path @ CHR ''/'' # b \<noteq> []" by simp
  have "last (path @ CHR ''/'' # b) = last b" using b(1) by simp
  moreover have "last b \<in> set b" using b(1) by (rule last_in_set)
  ultimately have la: "last (path @ CHR ''/'' # b) \<noteq> CHR ''/''"
    using b(2) by metis
  have "foldl join_step (path @ CHR ''/'' # b) xs
        = (path @ CHR ''/'' # b) @ concat (map (\<lambda>x. CHR ''/'' # x) xs)"
    by (rule Cons.IH [OF ne la xs])
  then show ?case by (simp add: js)
qed

lemma os_path_join_comps:
  assumes "xs \<noteq> []" "\<forall>x\<in>set xs. x \<noteq> [] \<and> CHR ''/'' \<notin> set x"
  shows "os_path_join (hd xs) (tl xs) = str_join ''/'' xs"
proof -
  obtain a ys where xs: "xs = a # ys" using assms(1) by (cases xs) auto
  from assms(2) xs have a: "a \<noteq> []" "CHR ''/'' \<notin> set a"
    and ys: "\<forall>x\<in>set ys. x \<noteq> [] \<and> CHR ''/'' \<notin> set x" by simp_all
  from a have la: "last a \<noteq> CHR ''/''" using last_in_set by metis
  have "foldl join_step a ys = a @ concat (map (\<lambda>x. CHR ''/'' # x) ys)"
    by (rule foldl_join_step [OF a(1) la ys])
  then show ?thesis by (simp add: xs os_path_join_def str_join_concat)
qed



lemma relpath_in_tree:
  assumes abs: "startswith main_dir ''/''"
    and sl: "endswith main_dir ''/''"
    and good: "\<forall>c\<in>set (split_on (CHR ''/'') rest). good_comp c"
  shows "os_path_relpath cwd (main_dir @ rest) main_dir = Inr rest"
proof -
  let ?sp = "split_on (CHR ''/'')"
  let ?R = "?sp rest"
  from sl obtain d where d: "main_dir = d @ ''/''"
    by (auto simp: endswith_def suffix_def)
  define S where "S = foldl (norm_step True) [] (?sp d)"
  have abs2: "startswith (main_dir @ rest) ''/''"
    using abs by (auto simp: startswith_def prefix_def)
  have "?sp main_dir = ?sp d @ [[]]"
    using split_on_append [of "CHR ''/''" d "[]"] by (simp add: d)
  then have start: "foldl (norm_step True) [] (?sp main_dir) = S"
    by (simp add: S_def norm_step_def)
  have "?sp (main_dir @ rest) = ?sp d @ ?R"
    using split_on_append [of "CHR ''/''" d rest] by (simp add: d)
  then have path: "foldl (norm_step True) [] (?sp (main_dir @ rest)) = S @ ?R"
    using foldl_norm_step_good [OF good] by (simp add: S_def)
  have a1: "os_path_abspath cwd main_dir = os_path_normpath main_dir"
    using abs by (simp add: os_path_abspath_def os_path_isabs_def)
  have a2: "os_path_abspath cwd (main_dir @ rest) = os_path_normpath (main_dir @ rest)"
    using abs2 by (simp add: os_path_abspath_def os_path_isabs_def)
  have sl_list: "filter (\<lambda>x. x \<noteq> []) (?sp (os_path_abspath cwd main_dir)) = S"
    unfolding a1 comps_normpath_abs [OF abs] by (rule start)
  have pl_list: "filter (\<lambda>x. x \<noteq> []) (?sp (os_path_abspath cwd (main_dir @ rest))) = S @ ?R"
    unfolding a2 comps_normpath_abs [OF abs2] by (rule path)
  have Rne: "?R \<noteq> []" by simp
  have Rok: "\<forall>x\<in>set ?R. x \<noteq> [] \<and> CHR ''/'' \<notin> set x"
    using good split_on_no_sep by (auto simp: good_comp_def)
  have ne: "main_dir @ rest \<noteq> []" using d by simp
  have "os_path_relpath cwd (main_dir @ rest) main_dir
        = Inr (os_path_join (hd ?R) (tl ?R))"
    unfolding os_path_relpath_def Let_def sl_list pl_list
    using ne Rne by (simp add: commonprefix_append)
  also have "os_path_join (hd ?R) (tl ?R) = str_join ''/'' ?R"
    by (rule os_path_join_comps [OF Rne Rok])
  also have "\<dots> = rest" by (rule str_join_split)
  finally show ?thesis .
qed

section \<open>Properties of build_zip_paths\<close>

lemma zip_path_of_in_tree:
  assumes "startswith main_dir ''/''" "endswith main_dir ''/''" "canonical_below main_dir k"
  shows "zip_path_of cwd main_dir k w = Inr (drop (length main_dir) k, w)"
proof -
  from assms(3) have sw: "startswith k main_dir"
    and good: "\<forall>c\<in>set (split_on (CHR ''/'') (drop (length main_dir) k)). good_comp c"
    by (simp_all add: canonical_below_def)
  from sw have k: "k = main_dir @ drop (length main_dir) k"
    by (auto simp: startswith_def prefix_def)
  have "os_path_relpath cwd (main_dir @ drop (length main_dir) k) main_dir
        = Inr (drop (length main_dir) k)"
    by (rule relpath_in_tree [OF assms(1,2) good])
  with k have "os_path_relpath cwd k main_dir = Inr (drop (length main_dir) k)" by simp
  with sw show ?thesis by (simp add: zip_path_of_def)
qed

lemma zip_paths_loop_in_tree:
  assumes "startswith main_dir ''/''" "endswith main_dir ''/''"
  shows "\<forall>k\<in>set keys. canonical_below main_dir k \<Longrightarrow>
         \<exists>ans' lg'. zip_paths_loop cwd main_dir keys (ans, w, lg) = Inr (ans', w, lg')
           \<and> (\<forall>k. map_of ans' k
                 = (if k \<in> set keys then Some (drop (length main_dir) k) else map_of ans k))"
proof (induction keys arbitrary: ans lg)
  case Nil
  then show ?case by simp
next
  case (Cons a keys)
  from Cons.prems have a: "canonical_below main_dir a"
    and keys: "\<forall>k\<in>set keys. canonical_below main_dir k" by simp_all
  let ?p = "drop (length main_dir) a"
  have zp: "zip_path_of cwd main_dir a w = Inr (?p, w)"
    by (rule zip_path_of_in_tree [OF assms a])
  obtain ans' lg' where
    loop: "zip_paths_loop cwd main_dir keys
             (AList.update a ?p ans, w, lg @ [(INFO, ?p @ '' <= '' @ a)]) = Inr (ans', w, lg')"
    and m: "\<forall>k. map_of ans' k
              = (if k \<in> set keys then Some (drop (length main_dir) k)
                 else map_of (AList.update a ?p ans) k)"
    using Cons.IH [OF keys, of "AList.update a ?p ans" "lg @ [(INFO, ?p @ '' <= '' @ a)]"]
    by blast
  have "zip_paths_loop cwd main_dir (a # keys) (ans, w, lg) = Inr (ans', w, lg')"
    using loop by (simp add: zp)
  moreover have "\<forall>k. map_of ans' k
       = (if k \<in> set (a # keys) then Some (drop (length main_dir) k) else map_of ans k)"
    using m by (simp add: update_conv')
  ultimately show ?case by blast
qed

text \<open>
  For a closure whose documents all lie below the main directory with canonical paths,
  \<open>build_zip_paths\<close> returns a dictionary that gives each document its path beyond
  \<open>main_dir\<close>, so no two distinct documents get the same archive path.
\<close>

theorem build_zip_paths_in_tree_injective:
  assumes "startswith main_dir ''/''" and "endswith main_dir ''/''"
    and "\<forall>k\<in>set (map fst wdls). canonical_below main_dir k"
  shows "\<exists>ans lg. build_zip_paths cwd main_dir wdls = Inr (ans, lg)
           \<and> (\<forall>k\<in>set (map fst wdls). map_of ans k = Some (drop (length main_dir) k))
           \<and> inj_on (map_of ans) (set (map fst wdls))"
proof -
  obtain ans lg where
    loop: "zip_paths_loop cwd main_dir (map fst wdls) ([], False, []) = Inr (ans, False, lg)"
    and m: "\<forall>k. map_of ans k
              = (if k \<in> set (map fst wdls) then Some (drop (length main_dir) k) else map_of [] k)"
    using zip_paths_loop_in_tree [OF assms(1,2,3), of cwd "[]" False "[]"] by blast
  have r: "build_zip_paths cwd main_dir wdls = Inr (ans, lg)"
    by (simp add: build_zip_paths_def loop)
  have v: "\<forall>k\<in>set (map fst wdls). map_of ans k = Some (drop (length main_dir) k)"
    using m by simp
  have "inj_on (map_of ans) (set (map fst wdls))"
  proof (rule inj_onI)
    fix x y
    assume x: "x \<in> set (map fst wdls)" and y: "y \<in> set (map fst wdls)"
      and e: "map_of ans x = map_of ans y"
    from x y e v have d: "drop (length main_dir) x = drop (length main_dir) y" by simp
    from x assms(3) have "canonical_below main_dir x" by blast
    moreover from y assms(3) have "canonical_below main_dir y" by blast
    ultimately have "startswith x main_dir" "startswith y main_dir"
      by (simp_all add: canonical_below_def)
    then have "x = main_dir @ drop (length main_dir) x" "y = main_dir @ drop (length main_dir) y"
      by (auto simp: startswith_def prefix_def)
    with d show "x = y" by metis
  qed
  with r v show ?thesis by blast
qed

theorem build_zip_paths_in_tree_injective_witness:
  "startswith ''/m/'' ''/'' \<and> endswith ''/m/'' ''/''
   \<and> canonical_below ''/m/'' ''/m/main.wdl'' \<and> canonical_below ''/m/'' ''/m/lib/a.wdl''
   \<and> (\<exists>ans lg. build_zip_paths ''/cwd'' ''/m/'' [(''/m/main.wdl'', 0::nat), (''/m/lib/a.wdl'', 1)]
                   = Inr (ans, lg)
          \<and> map_of ans ''/m/main.wdl'' = Some ''main.wdl''
          \<and> map_of ans ''/m/lib/a.wdl'' = Some ''lib/a.wdl''
          \<and> inj_on (map_of ans) {''/m/main.wdl'', ''/m/lib/a.wdl''})"
proof -
  have h1: "startswith ''/m/'' ''/''" by code_simp
  have h2: "endswith ''/m/'' ''/''" by code_simp
  have c1: "canonical_below ''/m/'' ''/m/main.wdl''" by code_simp
  have c2: "canonical_below ''/m/'' ''/m/lib/a.wdl''" by code_simp
  have h3: "\<forall>k\<in>set (map fst [(''/m/main.wdl'', 0::nat), (''/m/lib/a.wdl'', 1)]).
              canonical_below ''/m/'' k"
    using c1 c2 by simp
  from build_zip_paths_in_tree_injective [OF h1 h2 h3, of "''/cwd''"]
  obtain ans lg where r: "build_zip_paths ''/cwd'' ''/m/''
        [(''/m/main.wdl'', 0::nat), (''/m/lib/a.wdl'', 1)] = Inr (ans, lg)"
    and m: "\<forall>k\<in>set (map fst [(''/m/main.wdl'', 0::nat), (''/m/lib/a.wdl'', 1)]).
              map_of ans k = Some (drop (length ''/m/'') k)"
    and i: "inj_on (map_of ans) (set (map fst [(''/m/main.wdl'', 0::nat), (''/m/lib/a.wdl'', 1)]))"
    by blast
  from m have m1: "map_of ans ''/m/main.wdl'' = Some ''main.wdl''"
    and m2: "map_of ans ''/m/lib/a.wdl'' = Some ''lib/a.wdl''" by simp_all
  from i have i': "inj_on (map_of ans) {''/m/main.wdl'', ''/m/lib/a.wdl''}" by simp
  show ?thesis using h1 h2 c1 c2 r m1 m2 i' by blast
qed

text \<open>
  C1: the claim says that the dictionary returned by \<open>build_zip_paths\<close> never gives
  two distinct documents the same archive path. With the main document in \<open>/m/n/\<close>,
  the two documents \<open>/m/x/a.wdl\<close> and \<open>/x/a.wdl\<close> lie outside the main directory;
  their common prefixes with \<open>/m/n/\<close> are \<open>/m/\<close> and \<open>/\<close>, both pass the
  assertion, and both documents are stored at \<open>__outside_wdl/x/a.wdl\<close>.
\<close>

theorem build_zip_paths_collision:
  "map_sum id fst (build_zip_paths ''/cwd'' ''/m/n/''
       [(''/m/n/main.wdl'', 0::nat), (''/m/x/a.wdl'', 1), (''/x/a.wdl'', 2)])
     = Inr [(''/m/n/main.wdl'', ''main.wdl''),
            (''/m/x/a.wdl'', ''__outside_wdl/x/a.wdl''),
            (''/x/a.wdl'', ''__outside_wdl/x/a.wdl'')]
   \<and> ''/m/x/a.wdl'' \<noteq> ''/x/a.wdl''"
  by code_simp

text \<open>
  C3: the claim says that the assertion on the common prefix never fails for a document
  outside the main directory. \<open>os.path.commonprefix\<close> compares character by character:
  for the main directory \<open>/home/user/\<close> and the document \<open>/home/user2/lib.wdl\<close> the
  common prefix is \<open>/home/user\<close>, which does not end with a separator, and
  \<open>build_zip_paths\<close> raises AssertionError.
\<close>

theorem build_zip_paths_assertion_fails:
  "build_zip_paths ''/cwd'' ''/home/user/''
       [(''/home/user/main.wdl'', 0::nat), (''/home/user2/lib.wdl'', 1)] = Inl AssertionError"
  by code_simp

section \<open>Properties of the collection loop\<close>

lemma collect_pop:
  "collect heap (q @ [d]) w =
     collect heap (q @ map imp_doc (doc_imports (heap d)))
       (AList.update (pos_abspath (doc_pos (heap d))) d w)"
  by (subst collect.simps) (simp add: Let_def)

lemma collect_list:
  assumes "\<And>d w. d \<in> set ds \<Longrightarrow> \<exists>w'. \<forall>q. collect heap (q @ [d]) w = collect heap q w'"
  shows "\<exists>w'. \<forall>q. collect heap (q @ ds) w = collect heap q w'"
  using assms
proof (induction ds arbitrary: w rule: rev_induct)
  case Nil
  show ?case by (rule exI [of _ w]) simp
next
  case (snoc d ds)
  from snoc.prems [of d w] obtain w1 where
    w1: "\<forall>q. collect heap (q @ [d]) w = collect heap q w1" by auto
  from snoc.IH [of w1] snoc.prems obtain w2 where
    w2: "\<forall>q. collect heap (q @ ds) w1 = collect heap q w2" by auto
  have "\<forall>q. collect heap (q @ ds @ [d]) w = collect heap q w2"
  proof
    fix q
    have "collect heap ((q @ ds) @ [d]) w = collect heap (q @ ds) w1" using w1 by blast
    with w2 show "collect heap (q @ ds @ [d]) w = collect heap q w2" by simp
  qed
  then show ?case by blast
qed

lemma collect_depth_ok:
  "depth_ok heap n d \<Longrightarrow> \<exists>w'. \<forall>q. collect heap (q @ [d]) w = collect heap q w'"
proof (induction n arbitrary: d w)
  case 0
  then show ?case by simp
next
  case (Suc n)
  have "\<exists>w'. \<forall>q. collect heap (q @ map imp_doc (doc_imports (heap d)))
            (AList.update (pos_abspath (doc_pos (heap d))) d w) = collect heap q w'"
  proof (rule collect_list)
    fix d' w0
    assume "d' \<in> set (map imp_doc (doc_imports (heap d)))"
    with Suc.prems have "depth_ok heap n d'" by auto
    then show "\<exists>w'. \<forall>q. collect heap (q @ [d']) w0 = collect heap q w'" by (rule Suc.IH)
  qed
  then show ?case by (simp add: collect_pop)
qed

lemma depth_ok_mono: "depth_ok heap n d \<Longrightarrow> depth_ok heap (Suc n) d"
  by (induction n arbitrary: d) auto

lemma collect_Some_depth:
  assumes "collect heap queue wdls = Some y"
  shows "\<exists>n. \<forall>d\<in>set queue. depth_ok heap n d"
proof (rule collect.raw_induct
    [where P = "\<lambda>heap queue wdls y. \<exists>n. \<forall>d\<in>set queue. depth_ok heap n d", OF _ assms],
    goal_cases)
  case (1 collect' heap queue wdls y)
  show ?case
  proof (cases "queue = []")
    case True
    then show ?thesis by simp
  next
    case False
    with 1(2) have "collect' heap (butlast queue @ map imp_doc (doc_imports (heap (last queue))))
        (AList.update (pos_abspath (doc_pos (heap (last queue)))) (last queue) wdls) = Some y"
      by (simp add: Let_def)
    from 1(1) [OF this] obtain n where
      n: "\<forall>d\<in>set (butlast queue @ map imp_doc (doc_imports (heap (last queue)))). depth_ok heap n d"
      by blast
    from n have l: "depth_ok heap (Suc n) (last queue)" by simp
    have b: "\<forall>d\<in>set (butlast queue). depth_ok heap (Suc n) d"
    proof
      fix d
      assume "d \<in> set (butlast queue)"
      with n have "depth_ok heap n d" by simp
      then show "depth_ok heap (Suc n) d" by (rule depth_ok_mono)
    qed
    from False have "set queue = set (butlast queue @ [last queue])" by simp
    then have s: "set queue = set (butlast queue) \<union> {last queue}" by (simp del: append_butlast_last_id)
    from l b s have "\<forall>d\<in>set queue. depth_ok heap (Suc n) d" by blast
    then show ?thesis by blast
  qed
qed

text \<open>
  C2 (as amended): the collection loop of \<open>build_source_dir\<close> terminates exactly when
  the chains of imports from the top document are bounded in length, that is when the
  import graph below it has no cycle. This covers every graph in which a document is
  imported from more than one place; such a document is put on the queue, and expanded,
  once for every import of it, and only the key of the dictionary removes the duplicate.
\<close>

theorem collect_wdls_terminates:
  "(\<exists>wdls. collect_wdls heap top_doc = Some wdls) \<longleftrightarrow> (\<exists>n. depth_ok heap n top_doc)"
proof
  assume "\<exists>wdls. collect_wdls heap top_doc = Some wdls"
  then obtain y where "collect heap [top_doc] [] = Some y" by (auto simp: collect_wdls_def)
  from collect_Some_depth [OF this] show "\<exists>n. depth_ok heap n top_doc" by simp
next
  assume "\<exists>n. depth_ok heap n top_doc"
  then obtain n where n: "depth_ok heap n top_doc" ..
  from collect_depth_ok [OF n, of "[]"] obtain w' where
    "\<forall>q. collect heap (q @ [top_doc]) [] = collect heap q w'" by blast
  then have "collect heap ([] @ [top_doc]) [] = collect heap [] w'" by blast
  then show "\<exists>wdls. collect_wdls heap top_doc = Some wdls"
    by (simp add: collect_wdls_def collect.simps)
qed

theorem collect_wdls_terminates_witness:
  "depth_ok diamond_heap 3 0 \<and> (\<exists>wdls. collect_wdls diamond_heap 0 = Some wdls)"
proof -
  have h: "depth_ok diamond_heap 3 0" by code_simp
  then have "\<exists>n. depth_ok diamond_heap n 0" ..
  with collect_wdls_terminates [of diamond_heap 0] h show ?thesis by blast
qed

lemma collect_cyclic_aux:
  assumes "collect heap queue wdls = Some y"
  shows "heap = cyclic_heap \<and> queue = [0] \<longrightarrow> False"
proof (rule collect.raw_induct
    [where P = "\<lambda>heap queue wdls y. heap = cyclic_heap \<and> queue = [0] \<longrightarrow> False", OF _ assms],
    goal_cases)
  case (1 collect' heap queue wdls y)
  show ?case
  proof
    assume a: "heap = cyclic_heap \<and> queue = [0]"
    with 1(2) have "collect' cyclic_heap [0] (AList.update ''/m/a.wdl'' 0 wdls) = Some y"
      by (simp add: Let_def cyclic_heap_def wdl_doc_def)
    from 1(1) [OF this] show False by simp
  qed
qed

text \<open>
  C2 as stated, for a document reachable along a cycle of imports, fails: nothing is
  deduplicated before a document is expanded, so a document that imports itself is popped
  and appended again forever.
\<close>

theorem collect_wdls_cycle_diverges:
  "collect_wdls cyclic_heap 0 = None"
proof (cases "collect_wdls cyclic_heap 0")
  case None
  then show ?thesis .
next
  case (Some y)
  then have "collect cyclic_heap [0] [] = Some y" by (simp add: collect_wdls_def)
  from collect_cyclic_aux [OF this] show ?thesis by simp
qed

section \<open>Properties of rewrite_imports\<close>


lemma str_replace_absent:
  "old \<noteq> [] \<Longrightarrow> \<not> str_contains s old \<Longrightarrow> str_replace s old new = s"
proof (induction s)
  case Nil
  then show ?case by (simp add: str_replace.simps)
next
  case (Cons x xs)
  from Cons.prems have np: "\<not> prefix old (x # xs)" and nc: "\<not> str_contains xs old" by simp_all
  from Cons.IH [OF Cons.prems(1) nc] have "str_replace xs old new = xs" .
  with np Cons.prems(1) show ?case by (subst str_replace.simps) simp
qed

lemma quoted_ne [simp]: "quoted u \<noteq> []"
  by (simp add: quoted_def)

lemma rewrite_line_fail:
  "py_get (cells st r) lineno = Inl e \<Longrightarrow>
   rewrite_line cwd heap doc zp imp r lineno (st, found, lg) = Inl e"
  by (simp add: rewrite_line_def)

lemma rewrite_line_absent:
  assumes "py_get (cells st r) lineno = Inr line"
    and "\<not> str_contains line (quoted (imp_uri imp))"
  shows "rewrite_line cwd heap doc zp imp r lineno (st, found, lg)
         = (case new_uri_of cwd heap doc zp imp of
              Inl e \<Rightarrow> Inl e
            | Inr u \<Rightarrow> Inr (st, found, lg))"
  using assms
  by (simp add: rewrite_line_def Let_def str_replace_absent split: sum.splits)

lemma rewrite_lines_absent:
  assumes "\<forall>lineno\<in>set linenos. \<forall>line. py_get (cells st r) lineno = Inr line
             \<longrightarrow> \<not> str_contains line (quoted (imp_uri imp))"
  shows "(\<exists>e. rewrite_lines cwd heap doc zp imp r linenos (st, found, lg) = Inl e)
       \<or> rewrite_lines cwd heap doc zp imp r linenos (st, found, lg) = Inr (st, found, lg)"
  using assms
proof (induction linenos)
  case Nil
  then show ?case by simp
next
  case (Cons lineno linenos)
  show ?case
  proof (cases "py_get (cells st r) lineno")
    case (Inl e)
    then show ?thesis by (simp add: rewrite_line_fail)
  next
    case (Inr line)
    with Cons.prems have "\<not> str_contains line (quoted (imp_uri imp))" by simp
    note rl = rewrite_line_absent [OF Inr this, of cwd heap doc zp found lg]
    show ?thesis
    proof (cases "new_uri_of cwd heap doc zp imp")
      case (Inl e)
      with rl show ?thesis by simp
    next
      case (Inr u)
      with rl have "rewrite_line cwd heap doc zp imp r lineno (st, found, lg) = Inr (st, found, lg)"
        by simp
      moreover from Cons.prems have "\<forall>lineno\<in>set linenos. \<forall>line. py_get (cells st r) lineno = Inr line
             \<longrightarrow> \<not> str_contains line (quoted (imp_uri imp))" by simp
      note Cons.IH [OF this]
      ultimately show ?thesis by simp
    qed
  qed
qed

lemma rewrite_lines_absent_ok:
  assumes "\<forall>lineno\<in>set linenos. \<forall>line. py_get (cells st r) lineno = Inr line
             \<longrightarrow> \<not> str_contains line (quoted (imp_uri imp))"
    and "\<forall>lineno\<in>set linenos. py_index (cells st r) lineno \<noteq> None"
    and "new_uri_of cwd heap doc zp imp = Inr u"
  shows "rewrite_lines cwd heap doc zp imp r linenos (st, found, lg) = Inr (st, found, lg)"
  using assms(1,2)
proof (induction linenos)
  case Nil
  then show ?case by simp
next
  case (Cons lineno linenos)
  from Cons.prems(2) obtain j where j: "py_index (cells st r) lineno = Some j" by auto
  then have g: "py_get (cells st r) lineno = Inr (cells st r ! j)" by (simp add: py_get_def)
  with Cons.prems(1) have "\<not> str_contains (cells st r ! j) (quoted (imp_uri imp))" by simp
  from rewrite_line_absent [OF g this, of cwd heap doc zp found lg] assms(3)
  have "rewrite_line cwd heap doc zp imp r lineno (st, found, lg) = Inr (st, found, lg)" by simp
  moreover have "rewrite_lines cwd heap doc zp imp r linenos (st, found, lg) = Inr (st, found, lg)"
    using Cons.prems by (intro Cons.IH) simp_all
  ultimately show ?case by simp
qed

lemma rewrite_edge_absent:
  assumes "\<forall>lineno\<in>set (py_range (pos_line (imp_pos imp) - 1) (pos_end_line (imp_pos imp))).
             \<forall>line. py_get (cells st r) lineno = Inr line
               \<longrightarrow> \<not> str_contains line (quoted (imp_uri imp))"
  shows "\<exists>e. rewrite_edge cwd heap doc zp r imp (st, lg) = Inl e"
  using rewrite_lines_absent [OF assms, of cwd heap doc zp False lg]
  by (auto simp: rewrite_edge_def Let_def)

lemma rewrite_edge_absent_assert:
  assumes "\<forall>lineno\<in>set (py_range (pos_line (imp_pos imp) - 1) (pos_end_line (imp_pos imp))).
             \<forall>line. py_get (cells st r) lineno = Inr line
               \<longrightarrow> \<not> str_contains line (quoted (imp_uri imp))"
    and "\<forall>lineno\<in>set (py_range (pos_line (imp_pos imp) - 1) (pos_end_line (imp_pos imp))).
             py_index (cells st r) lineno \<noteq> None"
    and "new_uri_of cwd heap doc zp imp = Inr u"
  shows "rewrite_edge cwd heap doc zp r imp (st, lg) = Inl AssertionError"
  using rewrite_lines_absent_ok [OF assms, of False lg]
  by (simp add: rewrite_edge_def Let_def)

lemma rewrite_edges_append:
  "rewrite_edges cwd heap doc zp r (pre @ imps) s
   = (case rewrite_edges cwd heap doc zp r pre s of
        Inl e \<Rightarrow> Inl e
      | Inr s' \<Rightarrow> rewrite_edges cwd heap doc zp r imps s')"
  by (induction pre arbitrary: s) (auto split: sum.splits)

text \<open>
  C4 (as amended): let \<open>imp\<close> be an import edge of the document, and let the edges
  before it have been rewritten, leaving the working copy \<open>st2\<close>. If no line of the
  working copy within the span of \<open>imp\<close> contains the URI of \<open>imp\<close> between double
  quotes, \<open>rewrite_imports\<close> does not return normally: it raises an error, and the
  error is the assertion failure whenever every line of the span exists and the new URI
  can be computed (otherwise the IndexError of the missing line, or the KeyError or
  ValueError of the new URI, comes first).
\<close>

theorem rewrite_imports_no_match_fails:
  assumes "doc_imports doc = pre @ imp # post"
    and "list_copy st (source_lines doc) = (r, st1)"
    and "rewrite_edges cwd heap doc zip_paths r pre (st1, []) = Inr (st2, lg2)"
    and "\<forall>lineno\<in>set (py_range (pos_line (imp_pos imp) - 1) (pos_end_line (imp_pos imp))).
           \<forall>line. py_get (cells st2 r) lineno = Inr line
             \<longrightarrow> \<not> str_contains line (quoted (imp_uri imp))"
  shows "(\<exists>e. rewrite_imports cwd heap st doc zip_paths = Inl e)
       \<and> ((\<forall>lineno\<in>set (py_range (pos_line (imp_pos imp) - 1) (pos_end_line (imp_pos imp))).
              py_index (cells st2 r) lineno \<noteq> None)
            \<and> (\<exists>u. new_uri_of cwd heap doc zip_paths imp = Inr u)
          \<longrightarrow> rewrite_imports cwd heap st doc zip_paths = Inl AssertionError)"
proof -
  have split: "rewrite_edges cwd heap doc zip_paths r (doc_imports doc) (st1, [])
      = (case rewrite_edge cwd heap doc zip_paths r imp (st2, lg2) of
           Inl e \<Rightarrow> Inl e
         | Inr s' \<Rightarrow> rewrite_edges cwd heap doc zip_paths r post s')"
    by (simp add: assms(1,3) rewrite_edges_append)
  from rewrite_edge_absent [OF assms(4), of cwd heap doc zip_paths lg2]
  obtain e where e: "rewrite_edge cwd heap doc zip_paths r imp (st2, lg2) = Inl e" by blast
  have "rewrite_imports cwd heap st doc zip_paths = Inl e"
    by (simp add: rewrite_imports_def assms(2) split e)
  moreover have "rewrite_imports cwd heap st doc zip_paths = Inl AssertionError"
    if a: "\<forall>lineno\<in>set (py_range (pos_line (imp_pos imp) - 1) (pos_end_line (imp_pos imp))).
              py_index (cells st2 r) lineno \<noteq> None"
      and u: "new_uri_of cwd heap doc zip_paths imp = Inr u" for u
  proof -
    from rewrite_edge_absent_assert [OF assms(4) a u, of lg2]
    show ?thesis by (simp add: rewrite_imports_def assms(2) split)
  qed
  ultimately show ?thesis by blast
qed

theorem rewrite_imports_no_match_fails_witness:
  "doc_imports (main_doc [import_at ''z.wdl'' 1 1]) = [] @ import_at ''z.wdl'' 1 1 # []
   \<and> \<not> str_contains (''import '' @ quoted ''x.wdl'') (quoted ''z.wdl'')
   \<and> rewrite_imports ''/cwd'' lib_heap (lines_store [''import '' @ quoted ''x.wdl''])
        (main_doc [import_at ''z.wdl'' 1 1]) lib_zip_paths = Inl AssertionError"
proof -
  let ?st = "lines_store [''import '' @ quoted ''x.wdl'']"
  let ?imp = "import_at ''z.wdl'' 1 1"
  let ?doc = "main_doc [?imp]"
  obtain r st1 where copy: "list_copy ?st (source_lines ?doc) = (r, st1)" by force
  then have c: "cells st1 r = [''import '' @ quoted ''x.wdl'']"
    by (auto simp: list_copy_def Let_def lines_store_def main_doc_def)
  have h1: "doc_imports ?doc = [] @ ?imp # []" by (simp add: main_doc_def)
  have h3: "rewrite_edges ''/cwd'' lib_heap ?doc lib_zip_paths r [] (st1, []) = Inr (st1, [])"
    by simp
  have rng: "py_range (pos_line (imp_pos ?imp) - 1) (pos_end_line (imp_pos ?imp)) = [0]"
    by (simp add: import_at_def py_range_def)
  have nc: "\<not> str_contains (''import '' @ quoted ''x.wdl'') (quoted ''z.wdl'')" by code_simp
  have h4: "\<forall>lineno\<in>set (py_range (pos_line (imp_pos ?imp) - 1) (pos_end_line (imp_pos ?imp))).
           \<forall>line. py_get (cells st1 r) lineno = Inr line
             \<longrightarrow> \<not> str_contains line (quoted (imp_uri ?imp))"
  proof (intro ballI allI impI)
    fix lineno line
    assume l: "lineno \<in> set (py_range (pos_line (imp_pos ?imp) - 1) (pos_end_line (imp_pos ?imp)))"
      and g: "py_get (cells st1 r) lineno = Inr line"
    from l have "lineno = 0" by (simp add: rng)
    with g c have "line = ''import '' @ quoted ''x.wdl''" by (simp add: py_get_def py_index_def)
    moreover have "imp_uri ?imp = ''z.wdl''" by (simp add: import_at_def)
    ultimately show "\<not> str_contains line (quoted (imp_uri ?imp))" using nc by simp
  qed
  have i: "\<forall>lineno\<in>set (py_range (pos_line (imp_pos ?imp) - 1) (pos_end_line (imp_pos ?imp))).
              py_index (cells st1 r) lineno \<noteq> None"
    by (simp add: rng c py_index_def)
  have u: "\<exists>u. new_uri_of ''/cwd'' lib_heap ?doc lib_zip_paths ?imp = Inr u"
  proof -
    have "new_uri_of ''/cwd'' lib_heap ?doc lib_zip_paths ?imp = Inr ''lib/y.wdl''" by code_simp
    then show ?thesis ..
  qed
  from rewrite_imports_no_match_fails [OF h1 copy h3 h4] i u
  have "rewrite_imports ''/cwd'' lib_heap ?st ?doc lib_zip_paths = Inl AssertionError" by blast
  with h1 nc show ?thesis by blast
qed

text \<open>
  C4 as stated fails in two ways. For an edge whose span lies beyond the last line no
  line of the span contains the URI, and \<open>rewrite_imports\<close> raises IndexError, not the
  assertion failure. And the lines are read from the working copy: when the first edge
  of a document has rewritten \<open>"x.wdl"\<close> to \<open>"lib/y.wdl"\<close> on line 1, a second edge
  with the URI \<open>lib/y.wdl\<close> and the same span is found there, although no line of the
  document contains it, and \<open>rewrite_imports\<close> returns normally.
\<close>

theorem rewrite_imports_not_asserting:
  "returned_lines (rewrite_imports ''/cwd'' lib_heap (lines_store [''import '' @ quoted ''x.wdl''])
        (main_doc [import_at ''z.wdl'' 3 3]) lib_zip_paths) = Inl IndexError
   \<and> \<not> str_contains (''import '' @ quoted ''x.wdl'') (quoted ''lib/y.wdl'')
   \<and> returned_lines (rewrite_imports ''/cwd'' lib_heap (lines_store [''import '' @ quoted ''x.wdl''])
        (main_doc [import_at ''x.wdl'' 1 1, import_at ''lib/y.wdl'' 1 1]) lib_zip_paths)
      = Inr [''import '' @ quoted ''lib/y.wdl'']"
  by code_simp














section \<open>Properties of unpack\<close>

lemma unpack_at_manifest:
  assumes "find_manifest env files archive_fn0 = (Inr (archive_fn, manifest_fn, cleanup), files1)"
    and "load_manifest env files1 manifest_fn = Some manifest"
  shows "fst (unpack env files archive_fn0)
         = map_sum id (\<lambda>u. (u, cleanup)) (sanity_check env files1 archive_fn manifest_fn manifest)"
  using assms by (simp add: unpack_def split: sum.splits)

text \<open>
  C5 (as amended): let \<open>unpack\<close> have found and loaded the manifest, and let \<open>dn\<close> be
  the directory of the manifest. If the path of \<open>mainWorkflowURL\<close> below \<open>dn\<close>, or the
  path of the first entry of \<open>inputFileURLs\<close> when that entry is a string other than
  the empty one, is not a regular file or is not really within \<open>dn\<close>, then \<open>unpack\<close>
  raises the InputError \<open>MANIFEST.json refers to missing or invalid files\<close> and yields
  nothing.
\<close>

theorem unpack_rejects_invalid_files:
  assumes "find_manifest env files archive_fn0 = (Inr (archive_fn, manifest_fn, cleanup), files1)"
    and "load_manifest env files1 manifest_fn = Some manifest"
    and "dn = os_path_abspath (getcwd env) (os_path_dirname manifest_fn)"
    and "\<not> (os_path_isfile files1 (os_path_join dn [main_workflow_url manifest])
            \<and> path_really_within env files1 (os_path_join dn [main_workflow_url manifest]) dn)
         \<or> (\<exists>s. first_input_file manifest = Some s \<and> s \<noteq> []
                \<and> \<not> (os_path_isfile files1 (os_path_join dn [s])
                       \<and> path_really_within env files1 (os_path_join dn [s]) dn))"
  shows "fst (unpack env files archive_fn0)
         = Inl (InputError (''MANIFEST.json refers to missing or invalid files in '' @ archive_fn))"
proof -
  from assms(3,4) have
    "sanity_check env files1 archive_fn manifest_fn manifest
     = Inl (InputError (''MANIFEST.json refers to missing or invalid files in '' @ archive_fn))"
    by (auto simp: sanity_check_def Let_def input_file_abs_of_def split: option.splits)
  with unpack_at_manifest [OF assms(1,2)] show ?thesis by simp
qed

theorem unpack_rejects_invalid_files_witness:
  "os_path_isfile ex_files ''/v/../../etc/passwd''
   \<and> \<not> path_really_within ex_env ex_files ''/v/../../etc/passwd'' ''/v''
   \<and> fst (unpack ex_env ex_files ''/v/MANIFEST.json'')
     = Inl (InputError ''MANIFEST.json refers to missing or invalid files in /v/MANIFEST.json'')"
proof -
  let ?m = "[(''mainWorkflowURL'', JStr ''../../etc/passwd'')]"
  have f: "fst (find_manifest ex_env ex_files ''/v/MANIFEST.json'')
           = Inr (''/v/MANIFEST.json'', ''/v/MANIFEST.json'', [])" by code_simp
  let ?files1 = "snd (find_manifest ex_env ex_files ''/v/MANIFEST.json'')"
  from f have h1: "find_manifest ex_env ex_files ''/v/MANIFEST.json''
           = (Inr (''/v/MANIFEST.json'', ''/v/MANIFEST.json'', []), ?files1)"
    by (metis prod.collapse)
  have h2: "load_manifest ex_env ?files1 ''/v/MANIFEST.json'' = Some ?m" by code_simp
  have h3: "''/v'' = os_path_abspath (getcwd ex_env) (os_path_dirname ''/v/MANIFEST.json'')"
    by code_simp
  have i: "os_path_isfile ex_files ''/v/../../etc/passwd''" by code_simp
  have w: "\<not> path_really_within ex_env ex_files ''/v/../../etc/passwd'' ''/v''" by code_simp
  have "\<not> path_really_within ex_env ?files1 (os_path_join ''/v'' [main_workflow_url ?m]) ''/v''"
    by code_simp
  then have h4: "\<not> (os_path_isfile ?files1 (os_path_join ''/v'' [main_workflow_url ?m])
            \<and> path_really_within ex_env ?files1 (os_path_join ''/v'' [main_workflow_url ?m]) ''/v'')
         \<or> (\<exists>s. first_input_file ?m = Some s \<and> s \<noteq> []
                \<and> \<not> (os_path_isfile ?files1 (os_path_join ''/v'' [s])
                       \<and> path_really_within ex_env ?files1 (os_path_join ''/v'' [s]) ''/v''))"
    by blast
  from unpack_rejects_invalid_files [OF h1 h2 h3 h4] i w show ?thesis by simp
qed

text \<open>
  C5 as stated, for every first entry of \<open>inputFileURLs\<close>, fails for the empty string:
  the entry resolves to the directory of the manifest, which is not a regular file, but
  \<open>input_file_abs\<close> is \<open>None\<close> for it, the check is passed over, and \<open>unpack\<close> yields
  a value without an input file.
\<close>

theorem unpack_empty_input_file:
  "first_input_file [(''mainWorkflowURL'', JStr ''main.wdl''), (''inputFileURLs'', JArr [JStr []])]
     = Some []
   \<and> \<not> os_path_isfile ex_files (os_path_join ''/w'' [[]])
   \<and> fst (unpack ex_env ex_files ''/w'')
     = Inr (\<lparr>uz_dir = ''/w'', uz_main_wdl = ''/w/main.wdl'', uz_input_file = None\<rparr>, [])"
  by code_simp

text \<open>
  C8: when the manifest that \<open>unpack\<close> finds is a JSON object with a string
  \<open>mainWorkflowURL\<close> and nothing else, and the main document passes the sanity check,
  \<open>unpack\<close> yields a value whose \<open>input_file\<close> is \<open>None\<close>.
\<close>

theorem unpack_minimal_manifest:
  assumes "find_manifest env files archive_fn0 = (Inr (archive_fn, manifest_fn, cleanup), files1)"
    and "json_load env files1 manifest_fn = Some (JObj [(''mainWorkflowURL'', JStr main_wdl)])"
    and "dn = os_path_abspath (getcwd env) (os_path_dirname manifest_fn)"
    and "os_path_isfile files1 (os_path_join dn [main_wdl])"
    and "path_really_within env files1 (os_path_join dn [main_wdl]) dn"
  shows "fst (unpack env files archive_fn0)
         = Inr (\<lparr>uz_dir = dn, uz_main_wdl = os_path_join dn [main_wdl], uz_input_file = None\<rparr>,
                cleanup)"
proof -
  let ?m = "[(''mainWorkflowURL'', JStr main_wdl)]"
  from assms(2) have lm: "load_manifest env files1 manifest_fn = Some ?m"
    by (simp add: load_manifest_def)
  have "sanity_check env files1 archive_fn manifest_fn ?m
        = Inr \<lparr>uz_dir = dn, uz_main_wdl = os_path_join dn [main_wdl], uz_input_file = None\<rparr>"
    using assms(3,4,5)
    by (simp add: sanity_check_def Let_def main_workflow_url_def first_input_file_def
        input_file_abs_of_def)
  with unpack_at_manifest [OF assms(1) lm] show ?thesis by simp
qed

theorem unpack_minimal_manifest_witness:
  "fst (unpack ex_env ex_files ''/d/src.zip'')
     = Inr (\<lparr>uz_dir = ''/tmp/miniwdl_run_zip_0001'',
             uz_main_wdl = ''/tmp/miniwdl_run_zip_0001/main.wdl'',
             uz_input_file = None\<rparr>,
            [''/tmp/miniwdl_run_zip_0001''])"
proof -
  let ?mf = "''/tmp/miniwdl_run_zip_0001/MANIFEST.json''"
  let ?dn = "''/tmp/miniwdl_run_zip_0001''"
  have f: "fst (find_manifest ex_env ex_files ''/d/src.zip'') = Inr (''/d/src.zip'', ?mf, [?dn])"
    by code_simp
  let ?files1 = "snd (find_manifest ex_env ex_files ''/d/src.zip'')"
  from f have h1: "find_manifest ex_env ex_files ''/d/src.zip''
           = (Inr (''/d/src.zip'', ?mf, [?dn]), ?files1)"
    by (metis prod.collapse)
  have h2: "json_load ex_env ?files1 ?mf = Some (JObj [(''mainWorkflowURL'', JStr ''main.wdl'')])"
    by code_simp
  have h3: "?dn = os_path_abspath (getcwd ex_env) (os_path_dirname ?mf)" by code_simp
  have h4: "os_path_isfile ?files1 (os_path_join ?dn [''main.wdl''])" by code_simp
  have h5: "path_really_within ex_env ?files1 (os_path_join ?dn [''main.wdl'']) ?dn" by code_simp
  have j: "os_path_join ?dn [''main.wdl''] = ''/tmp/miniwdl_run_zip_0001/main.wdl''" by code_simp
  from unpack_minimal_manifest [OF h1 h2 h3 h4 h5] j show ?thesis by simp
qed

section \<open>Properties of build\<close>


lemma startswith_trans: "startswith p d \<Longrightarrow> startswith d q \<Longrightarrow> startswith p q"
  by (auto simp: startswith_def prefix_def)










lemma str_join_hd: "x \<noteq> [] \<Longrightarrow> hd (str_join [c] (x # xs)) = hd x"
  by (simp add: str_join_concat)








lemma inv_store [simp]:
  "build_inv env archive files0 (s\<lparr>bs_store := st\<rparr>) = build_inv env archive files0 s"
  by (simp add: build_inv_def)























end
